theory Spec2Isabelle
  imports Main
begin

section \<open>The subscription lifecycle of observable-hooks (\<open>use-subscription.ts\<close>)\<close>

text \<open>
  \<open>useSubscription\<close> keeps three mutable cells per component instance (\<open>argsRef\<close>,
  \<open>subscriptionRef\<close>, \<open>errorRef\<close>) and one effect whose dependency array is
  \<open>[args[0]]\<close>. The embedding passes the cells around as a record. The hook's body is split
  the way the host runs it: the render phase (lines 54-60 and 108-113), the effect body
  (lines 63-101), the effect's cleanup (lines 103-105) and the three handlers handed to
  \<open>subscribe\<close> (lines 69-98).
\<close>

subsection \<open>Values\<close>

text \<open>
  The error parameter of the handler is \<open>any\<close>, and line 108 tests the stored value for
  truthiness, so values carry their JavaScript kind. Numbers are integers here; objects
  (among them every \<open>Error\<close>) are identified by a reference.
\<close>

datatype jsval = JUndefined | JNull | JBool bool | JNum int | JStr string | JObj nat

fun truthy :: "jsval \<Rightarrow> bool" where
  "truthy JUndefined = False"
| "truthy JNull = False"
| "truthy (JBool b) = b"
| "truthy (JNum n) = (n \<noteq> 0)"
| "truthy (JStr s) = (s \<noteq> [])"
| "truthy (JObj r) = True"

text \<open>Observables and callbacks are compared by reference only; a number stands for the reference.\<close>

type_synonym observable = nat
type_synonym callback = nat

text \<open>
  The argument tuple \<open>[input$, next, error, complete]\<close>. A callback position holding
  \<open>null\<close> or \<open>undefined\<close> is \<open>None\<close>; the source only tests the positions for truthiness
  (lines 74, 83, 95), and a function is always truthy.
\<close>

record args =
  a_input :: observable
  a_next :: "callback option"
  a_error :: "callback option"
  a_complete :: "callback option"

datatype emission = ENext jsval | EError jsval | EComplete

text \<open>What the hook does to the outside: calls of caller-supplied callbacks and forced updates.\<close>

datatype event =
    NextCalled callback jsval
  | ErrorCalled callback jsval
  | CompleteCalled callback
  | ForceUpdate

subsection \<open>State\<close>

text \<open>
  A subscription made by \<open>input$.subscribe\<close> remembers the \<open>input$\<close> of line 66, which the
  handlers keep in their closure, and whether it has been closed. The handle of a
  subscription is its position in \<open>subs\<close>.
\<close>

record subscription =
  sub_input :: observable
  sub_closed :: bool

text \<open>
  \<open>effDeps\<close> and \<open>effCleanup\<close> are the host's memory for the effect of line 62: the
  dependency array of the last run (\<open>None\<close> before the first commit) and the cleanup that
  run returned, which holds the \<open>subscription\<close> constant of line 68.
\<close>

record hstate =
  argsRef :: args
  subscriptionRef :: "nat option"
  errorRef :: jsval
  subs :: "subscription list"
  effDeps :: "observable option"
  effCleanup :: "nat option"
  events :: "event list"

text \<open>The cells of a new instance: \<open>useRef(args)\<close>, \<open>useRef()\<close>, \<open>useRef()\<close>.\<close>

definition fresh :: "args \<Rightarrow> hstate" where
  "fresh a = \<lparr>argsRef = a, subscriptionRef = None, errorRef = JUndefined, subs = [],
              effDeps = None, effCleanup = None, events = []\<rparr>"

subsection \<open>Collaborators\<close>

text \<open>
  Modelled from the spec: \<open>useForceUpdate\<close> of \<open>./helpers\<close> is not among the sources. The
  spec says it triggers a forced re-render of the owning component; the request is
  recorded as an event.
\<close>

definition forceUpdate :: "hstate \<Rightarrow> hstate" where
  "forceUpdate st = st\<lparr>events := events st @ [ForceUpdate]\<rparr>"

text \<open>Caller-supplied callbacks are opaque: a call is recorded with its argument.\<close>

definition emit_event :: "event \<Rightarrow> hstate \<Rightarrow> hstate" where
  "emit_event e st = st\<lparr>events := events st @ [e]\<rparr>"

text \<open>
  The observable library (\<open>rxjs\<close>) is an outside collaborator, taken by its contract:
  \<open>subscribe\<close> makes a new open subscription, \<open>unsubscribe\<close> closes it and is idempotent.
\<close>

definition subscribe :: "observable \<Rightarrow> hstate \<Rightarrow> nat \<times> hstate" where
  "subscribe inp st =
     (length (subs st), st\<lparr>subs := subs st @ [\<lparr>sub_input = inp, sub_closed = False\<rparr>]\<rparr>)"

definition unsubscribe :: "nat \<Rightarrow> hstate \<Rightarrow> hstate" where
  "unsubscribe h st =
     (if h < length (subs st)
      then st\<lparr>subs := (subs st)[h := (subs st ! h)\<lparr>sub_closed := True\<rparr>]\<rparr>
      else st)"

subsection \<open>The handlers (lines 69-98)\<close>

definition next_handler :: "observable \<Rightarrow> jsval \<Rightarrow> hstate \<Rightarrow> hstate" where
  "next_handler inp v st =
     (if inp \<noteq> a_input (argsRef st) then st
      else case a_next (argsRef st) of
             Some f \<Rightarrow> emit_event (NextCalled f v) st
           | None \<Rightarrow> st)"

definition error_handler :: "observable \<Rightarrow> jsval \<Rightarrow> hstate \<Rightarrow> hstate" where
  "error_handler inp e st =
     (if inp \<noteq> a_input (argsRef st) then st
      else case a_error (argsRef st) of
             Some f \<Rightarrow> emit_event (ErrorCalled f e) (st\<lparr>errorRef := JNull\<rparr>)
           | None \<Rightarrow> forceUpdate (st\<lparr>errorRef := e\<rparr>))"

definition complete_handler :: "observable \<Rightarrow> hstate \<Rightarrow> hstate" where
  "complete_handler inp st =
     (if inp \<noteq> a_input (argsRef st) then st
      else case a_complete (argsRef st) of
             Some f \<Rightarrow> emit_event (CompleteCalled f) st
           | None \<Rightarrow> st)"

fun handler :: "observable \<Rightarrow> emission \<Rightarrow> hstate \<Rightarrow> hstate" where
  "handler inp (ENext v) st = next_handler inp v st"
| "handler inp (EError e) st = error_handler inp e st"
| "handler inp EComplete st = complete_handler inp st"

text \<open>
  An emission of subscription \<open>h\<close>, again by the library's contract: it calls no handler
  of a closed subscription, it hands an emission of an open one to the handler of its
  kind, and it closes the subscription after an error or a completion, so that each
  subscription sees at most one of them and nothing after it.
\<close>

definition deliver :: "nat \<Rightarrow> emission \<Rightarrow> hstate \<Rightarrow> hstate" where
  "deliver h ev st =
     (if h < length (subs st) \<and> \<not> sub_closed (subs st ! h)
      then (let st1 = handler (sub_input (subs st ! h)) ev st
            in case ev of ENext v \<Rightarrow> st1 | _ \<Rightarrow> unsubscribe h st1)
      else st)"

subsection \<open>Render phase (lines 54-60, 108-113)\<close>

text \<open>
  A render either throws the stored error or returns the cell made by \<open>useRef\<close> at line
  59, not its content: what a holder of the returned cell reads from it later
  (\<open>.current\<close>) is the field \<open>subscriptionRef\<close> of the state at that time.
\<close>

datatype cell = SubscriptionCell

fun cell_current :: "cell \<Rightarrow> hstate \<Rightarrow> nat option" where
  "cell_current SubscriptionCell st = subscriptionRef st"

datatype outcome = Throws jsval | Returns cell

abbreviation ReturnsRef :: outcome where
  "ReturnsRef \<equiv> Returns SubscriptionCell"

definition render :: "args \<Rightarrow> hstate \<Rightarrow> outcome \<times> hstate" where
  "render a st =
     (let st1 = st\<lparr>argsRef := a\<rparr>
      in if truthy (errorRef st1) then (Throws (errorRef st1), st1) else (ReturnsRef, st1))"

subsection \<open>Commit phase (lines 62-106)\<close>

text \<open>
  The effect body, in the order of the source: clear \<open>errorRef\<close>, read \<open>input$\<close> from
  \<open>argsRef\<close>, subscribe, store the subscription in \<open>subscriptionRef\<close>, return the cleanup.
  \<open>effect\<close> is the body for an observable that emits nothing while \<open>subscribe\<close> runs;
  \<open>effect_sync\<close> below is the body for one that does.
\<close>

definition effect :: "hstate \<Rightarrow> hstate" where
  "effect st =
     (let st1 = st\<lparr>errorRef := JNull\<rparr>;
          inp = a_input (argsRef st1);
          (h, st2) = subscribe inp st1;
          st3 = st2\<lparr>subscriptionRef := Some h\<rparr>
      in st3\<lparr>effCleanup := Some h\<rparr>)"

definition run_cleanup :: "hstate \<Rightarrow> hstate" where
  "run_cleanup st =
     (case effCleanup st of
        None \<Rightarrow> st
      | Some h \<Rightarrow> (unsubscribe h st)\<lparr>effCleanup := None\<rparr>)"

text \<open>
  The host (\<open>react\<close>) is the other outside collaborator. It commits the latest render,
  whose dependency array is \<open>[args[0]]\<close>; after any render that is \<open>argsRef.current[0]\<close>.
  It runs the effect on the first commit and whenever the array differs by reference from
  the one of the last run, after the cleanup that run left. On teardown it runs the
  cleanup alone.
\<close>

definition commit :: "hstate \<Rightarrow> hstate" where
  "commit st =
     (let d = a_input (argsRef st)
      in if effDeps st = Some d then st
         else effect (run_cleanup (st\<lparr>effDeps := Some d\<rparr>)))"

definition unmount :: "hstate \<Rightarrow> hstate" where
  "unmount st = run_cleanup st"

text \<open>The caller may unsubscribe by hand through the returned cell (doc comment, line 10).\<close>

definition manual_unsubscribe :: "hstate \<Rightarrow> hstate" where
  "manual_unsubscribe st =
     (case subscriptionRef st of None \<Rightarrow> st | Some h \<Rightarrow> unsubscribe h st)"

subsection \<open>Histories\<close>

text \<open>
  Anything that can happen to one instance, in any order. The host and the library only
  produce some of these sequences, so what holds for all of them holds for theirs.
\<close>

datatype action = Render args | Commit | Unmount | Emit nat emission | ManualUnsubscribe

fun step :: "action \<Rightarrow> hstate \<Rightarrow> hstate" where
  "step (Render a) st = snd (render a st)"
| "step Commit st = commit st"
| "step Unmount st = unmount st"
| "step (Emit h ev) st = deliver h ev st"
| "step ManualUnsubscribe st = manual_unsubscribe st"

fun run :: "action list \<Rightarrow> hstate \<Rightarrow> hstate" where
  "run [] st = st"
| "run (x # xs) st = run xs (step x st)"

text \<open>The handles of the open subscriptions.\<close>

definition is_open :: "hstate \<Rightarrow> nat \<Rightarrow> bool" where
  "is_open st h = (h < length (subs st) \<and> \<not> sub_closed (subs st ! h))"

definition open_handles :: "hstate \<Rightarrow> nat list" where
  "open_handles st = filter (is_open st) [0..<length (subs st)]"

subsection \<open>Emissions while \<open>subscribe\<close> runs\<close>

text \<open>
  An observable may call the handlers inside \<open>subscribe\<close> (line 68), that is before line
  101 has stored the subscription in \<open>subscriptionRef\<close>. \<open>effect_subscribed\<close> is the state
  at that point: \<open>errorRef\<close> cleared, the new subscription made and open, the cell
  \<open>subscriptionRef\<close> and the cleanup as they were. \<open>sync_emissions\<close> hands over what the
  observable emits there, and \<open>effect_sync\<close> is the whole effect body around it.
\<close>

definition effect_subscribed :: "hstate \<Rightarrow> hstate" where
  "effect_subscribed st =
     (let st1 = st\<lparr>errorRef := JNull\<rparr>;
          inp = a_input (argsRef st1)
      in snd (subscribe inp st1))"

fun sync_emissions :: "nat \<Rightarrow> emission list \<Rightarrow> hstate \<Rightarrow> hstate" where
  "sync_emissions h [] st = st"
| "sync_emissions h (ev # evs) st = sync_emissions h evs (deliver h ev st)"

definition effect_sync :: "emission list \<Rightarrow> hstate \<Rightarrow> hstate" where
  "effect_sync sync st =
     (let st1 = st\<lparr>errorRef := JNull\<rparr>;
          inp = a_input (argsRef st1);
          (h, st2) = subscribe inp st1;
          st2' = sync_emissions h sync st2;
          st3 = st2'\<lparr>subscriptionRef := Some h\<rparr>
      in st3\<lparr>effCleanup := Some h\<rparr>)"

definition commit_sync :: "emission list \<Rightarrow> hstate \<Rightarrow> hstate" where
  "commit_sync sync st =
     (let d = a_input (argsRef st)
      in if effDeps st = Some d then st
         else effect_sync sync (run_cleanup (st\<lparr>effDeps := Some d\<rparr>)))"

text \<open>
  Histories in which a commit may come with the emissions its observable makes inside
  \<open>subscribe\<close>; \<open>Act\<close> embeds the actions above.
\<close>

datatype sync_action = Act action | CommitEmitting "emission list"

fun step_sync :: "sync_action \<Rightarrow> hstate \<Rightarrow> hstate" where
  "step_sync (Act x) st = step x st"
| "step_sync (CommitEmitting sync) st = commit_sync sync st"

fun run_sync :: "sync_action list \<Rightarrow> hstate \<Rightarrow> hstate" where
  "run_sync [] st = st"
| "run_sync (x # xs) st = run_sync xs (step_sync x st)"

fun no_commit :: "sync_action \<Rightarrow> bool" where
  "no_commit (Act Commit) = False"
| "no_commit (CommitEmitting sync) = False"
| "no_commit (Act x) = True"

text \<open>An error or a completion ends a subscription.\<close>

fun terminal :: "emission \<Rightarrow> bool" where
  "terminal (ENext v) = False"
| "terminal (EError e) = True"
| "terminal EComplete = True"

subsection \<open>Notions used by the properties\<close>

text \<open>
  The call a tuple of arguments prescribes for an emission: the callback at the position
  of the emission's kind, applied to the emission's payload, when that position is filled.
\<close>

fun callback_for :: "args \<Rightarrow> emission \<Rightarrow> event option" where
  "callback_for a (ENext v) = map_option (\<lambda>f. NextCalled f v) (a_next a)"
| "callback_for a (EError e) = map_option (\<lambda>f. ErrorCalled f e) (a_error a)"
| "callback_for a EComplete = map_option CompleteCalled (a_complete a)"

text \<open>
  What a dispatch under a tuple of arguments shows to the outside: the prescribed call, or,
  for an error nobody takes, the forced update.
\<close>

fun expected_events :: "args \<Rightarrow> emission \<Rightarrow> event list" where
  "expected_events a (ENext v) = (case a_next a of Some f \<Rightarrow> [NextCalled f v] | None \<Rightarrow> [])"
| "expected_events a (EError e) =
     (case a_error a of Some f \<Rightarrow> [ErrorCalled f e] | None \<Rightarrow> [ForceUpdate])"
| "expected_events a EComplete = (case a_complete a of Some f \<Rightarrow> [CompleteCalled f] | None \<Rightarrow> [])"

text \<open>An action that leaves the source reference \<open>s\<close> in place: every render passes \<open>s\<close>.\<close>

fun keeps_source :: "observable \<Rightarrow> action \<Rightarrow> bool" where
  "keeps_source s (Render a) = (a_input a = s)"
| "keeps_source s _ = True"

text \<open>Argument tuples with no callback, with a next callback only, with an error callback only.\<close>

abbreviation no_callbacks :: "observable \<Rightarrow> args" where
  "no_callbacks s \<equiv> \<lparr>a_input = s, a_next = None, a_error = None, a_complete = None\<rparr>"

abbreviation with_next :: "observable \<Rightarrow> callback \<Rightarrow> args" where
  "with_next s f \<equiv> \<lparr>a_input = s, a_next = Some f, a_error = None, a_complete = None\<rparr>"

abbreviation with_error :: "observable \<Rightarrow> callback \<Rightarrow> args" where
  "with_error s f \<equiv> \<lparr>a_input = s, a_next = None, a_error = Some f, a_complete = None\<rparr>"

text \<open>
  The invariant of all histories: an open subscription is the one both the cleanup and
  \<open>subscriptionRef\<close> hold, and while \<open>errorRef\<close> holds a value no subscription is open.
\<close>

definition hook_inv :: "hstate \<Rightarrow> bool" where
  "hook_inv st =
     (list_all (\<lambda>i. effCleanup st = Some i \<and> subscriptionRef st = Some i) (open_handles st) \<and>
      (errorRef st \<noteq> JNull \<and> errorRef st \<noteq> JUndefined \<longrightarrow> open_handles st = []))"

section \<open>Frame facts of the operations\<close>

lemmas eval_defs = fresh_def render_def commit_def effect_def run_cleanup_def subscribe_def
  unsubscribe_def unmount_def manual_unsubscribe_def deliver_def next_handler_def
  error_handler_def complete_handler_def emit_event_def forceUpdate_def open_handles_def
  is_open_def Let_def

lemma unsubscribe_frame [simp]:
  "argsRef (unsubscribe h st) = argsRef st"
  "subscriptionRef (unsubscribe h st) = subscriptionRef st"
  "errorRef (unsubscribe h st) = errorRef st"
  "effDeps (unsubscribe h st) = effDeps st"
  "effCleanup (unsubscribe h st) = effCleanup st"
  "events (unsubscribe h st) = events st"
  "length (subs (unsubscribe h st)) = length (subs st)"
  by (simp_all add: unsubscribe_def)

lemma is_open_unsubscribe [simp]: "is_open (unsubscribe h st) i = (is_open st i \<and> i \<noteq> h)"
  by (auto simp: unsubscribe_def is_open_def nth_list_update)

lemma sub_input_unsubscribe [simp]:
  "i < length (subs st) \<Longrightarrow> sub_input (subs (unsubscribe h st) ! i) = sub_input (subs st ! i)"
  by (simp add: unsubscribe_def nth_list_update)

lemma next_handler_frame [simp]:
  "argsRef (next_handler inp v st) = argsRef st"
  "subscriptionRef (next_handler inp v st) = subscriptionRef st"
  "errorRef (next_handler inp v st) = errorRef st"
  "subs (next_handler inp v st) = subs st"
  "effDeps (next_handler inp v st) = effDeps st"
  "effCleanup (next_handler inp v st) = effCleanup st"
  by (simp_all add: next_handler_def emit_event_def split: option.split)

lemma error_handler_frame [simp]:
  "argsRef (error_handler inp e st) = argsRef st"
  "subscriptionRef (error_handler inp e st) = subscriptionRef st"
  "subs (error_handler inp e st) = subs st"
  "effDeps (error_handler inp e st) = effDeps st"
  "effCleanup (error_handler inp e st) = effCleanup st"
  by (simp_all add: error_handler_def emit_event_def forceUpdate_def split: option.split)

lemma complete_handler_frame [simp]:
  "argsRef (complete_handler inp st) = argsRef st"
  "subscriptionRef (complete_handler inp st) = subscriptionRef st"
  "errorRef (complete_handler inp st) = errorRef st"
  "subs (complete_handler inp st) = subs st"
  "effDeps (complete_handler inp st) = effDeps st"
  "effCleanup (complete_handler inp st) = effCleanup st"
  by (simp_all add: complete_handler_def emit_event_def split: option.split)

lemma handler_frame [simp]:
  "argsRef (handler inp ev st) = argsRef st"
  "subscriptionRef (handler inp ev st) = subscriptionRef st"
  "subs (handler inp ev st) = subs st"
  "effDeps (handler inp ev st) = effDeps st"
  "effCleanup (handler inp ev st) = effCleanup st"
  by (cases ev; simp)+

lemma is_open_handler [simp]:
  "is_open (next_handler inp v st) i = is_open st i"
  "is_open (error_handler inp e st) i = is_open st i"
  "is_open (complete_handler inp st) i = is_open st i"
  "is_open (handler inp ev st) i = is_open st i"
  by (simp_all add: is_open_def)

lemma handler_stale: "inp \<noteq> a_input (argsRef st) \<Longrightarrow> handler inp ev st = st"
  by (cases ev) (simp_all add: next_handler_def error_handler_def complete_handler_def)

lemma deliver_frame [simp]:
  "argsRef (deliver h ev st) = argsRef st"
  "subscriptionRef (deliver h ev st) = subscriptionRef st"
  "effDeps (deliver h ev st) = effDeps st"
  "effCleanup (deliver h ev st) = effCleanup st"
  "length (subs (deliver h ev st)) = length (subs st)"
  by (cases ev; simp add: deliver_def Let_def)+

lemma deliver_not_open: "\<not> is_open st h \<Longrightarrow> deliver h ev st = st"
  by (auto simp: deliver_def is_open_def)

lemma deliver_open:
  "is_open st h \<Longrightarrow> deliver h ev st =
     (case ev of ENext v \<Rightarrow> handler (sub_input (subs st ! h)) ev st
               | _ \<Rightarrow> unsubscribe h (handler (sub_input (subs st ! h)) ev st))"
  by (simp add: deliver_def is_open_def Let_def)

lemma is_open_deliver: "is_open (deliver h ev st) i \<Longrightarrow> is_open st i"
  by (cases "is_open st h") (auto simp: deliver_open deliver_not_open split: emission.splits)

lemma is_open_deliver_terminal:
  "is_open (deliver h (EError e) st) i \<Longrightarrow> is_open st i \<and> i \<noteq> h"
  "is_open (deliver h EComplete st) i \<Longrightarrow> is_open st i \<and> i \<noteq> h"
  by (cases "is_open st h"; simp add: deliver_open deliver_not_open; blast)+

lemma render_snd [simp]: "snd (render a st) = st\<lparr>argsRef := a\<rparr>"
  by (simp add: render_def Let_def)

lemma render_fst: "fst (render a st) = (if truthy (errorRef st) then Throws (errorRef st) else ReturnsRef)"
  by (simp add: render_def Let_def)

lemma is_open_update [simp]:
  "is_open (st\<lparr>argsRef := a\<rparr>) i = is_open st i"
  "is_open (st\<lparr>effDeps := d\<rparr>) i = is_open st i"
  "is_open (st\<lparr>effCleanup := c\<rparr>) i = is_open st i"
  "is_open (st\<lparr>errorRef := e\<rparr>) i = is_open st i"
  "is_open (st\<lparr>subscriptionRef := r\<rparr>) i = is_open st i"
  "is_open (st\<lparr>events := es\<rparr>) i = is_open st i"
  by (simp_all add: is_open_def)

lemma run_cleanup_frame [simp]:
  "argsRef (run_cleanup st) = argsRef st"
  "subscriptionRef (run_cleanup st) = subscriptionRef st"
  "errorRef (run_cleanup st) = errorRef st"
  "effDeps (run_cleanup st) = effDeps st"
  "effCleanup (run_cleanup st) = None"
  "events (run_cleanup st) = events st"
  "length (subs (run_cleanup st)) = length (subs st)"
  by (simp_all add: run_cleanup_def split: option.split)

lemma is_open_run_cleanup:
  "is_open (run_cleanup st) i = (is_open st i \<and> effCleanup st \<noteq> Some i)"
  by (auto simp: run_cleanup_def split: option.split)

lemma effect_frame [simp]:
  "argsRef (effect st) = argsRef st"
  "subscriptionRef (effect st) = Some (length (subs st))"
  "errorRef (effect st) = JNull"
  "effDeps (effect st) = effDeps st"
  "effCleanup (effect st) = Some (length (subs st))"
  "events (effect st) = events st"
  "subs (effect st) = subs st @ [\<lparr>sub_input = a_input (argsRef st), sub_closed = False\<rparr>]"
  by (simp_all add: effect_def subscribe_def Let_def)

lemma is_open_effect: "is_open (effect st) i = (is_open st i \<or> i = length (subs st))"
  by (auto simp: is_open_def nth_append)

lemma commit_same: "effDeps st = Some (a_input (argsRef st)) \<Longrightarrow> commit st = st"
  by (simp add: commit_def)

lemma commit_changed:
  "effDeps st \<noteq> Some (a_input (argsRef st)) \<Longrightarrow>
   commit st = effect (run_cleanup (st\<lparr>effDeps := Some (a_input (argsRef st))\<rparr>))"
  by (simp add: commit_def)

lemma manual_unsubscribe_frame [simp]:
  "argsRef (manual_unsubscribe st) = argsRef st"
  "subscriptionRef (manual_unsubscribe st) = subscriptionRef st"
  "errorRef (manual_unsubscribe st) = errorRef st"
  "effDeps (manual_unsubscribe st) = effDeps st"
  "effCleanup (manual_unsubscribe st) = effCleanup st"
  "events (manual_unsubscribe st) = events st"
  "length (subs (manual_unsubscribe st)) = length (subs st)"
  by (simp_all add: manual_unsubscribe_def split: option.split)

lemma is_open_manual_unsubscribe: "is_open (manual_unsubscribe st) i \<Longrightarrow> is_open st i"
  by (auto simp: manual_unsubscribe_def split: option.splits)

section \<open>The invariant of all histories\<close>

lemma open_handles_set: "set (open_handles st) = {i. is_open st i}"
  by (auto simp: open_handles_def is_open_def)

lemma open_handles_distinct: "distinct (open_handles st)"
  by (simp add: open_handles_def)

lemma none_open_handles: "(\<forall>i. \<not> is_open st i) \<Longrightarrow> open_handles st = []"
  by (simp add: open_handles_def filter_empty_conv)

lemma none_open_handles_iff: "(open_handles st = []) = (\<forall>i. \<not> is_open st i)"
  by (auto simp: open_handles_def filter_empty_conv is_open_def)

lemma hook_inv_iff:
  "hook_inv st =
     ((\<forall>i. is_open st i \<longrightarrow> effCleanup st = Some i \<and> subscriptionRef st = Some i) \<and>
      (errorRef st \<noteq> JNull \<and> errorRef st \<noteq> JUndefined \<longrightarrow> (\<forall>i. \<not> is_open st i)))"
  by (simp add: hook_inv_def list_all_iff open_handles_set none_open_handles_iff)

lemma inv_unique:
  assumes "hook_inv st" "is_open st i" "is_open st j"
  shows "i = j"
proof -
  from assms(1) have c: "\<forall>k. is_open st k \<longrightarrow> effCleanup st = Some k"
    by (simp add: hook_inv_iff)
  from c assms(2) have "effCleanup st = Some i" by blast
  moreover from c assms(3) have "effCleanup st = Some j" by blast
  ultimately show ?thesis by simp
qed

lemma inv_fresh: "hook_inv (fresh a)"
  by (simp add: hook_inv_iff fresh_def is_open_def)

lemma inv_all_closed:
  "(\<forall>i. \<not> is_open st i) \<Longrightarrow> hook_inv st"
  by (simp add: hook_inv_iff)

lemma inv_run_cleanup: "hook_inv st \<Longrightarrow> \<not> is_open (run_cleanup (st\<lparr>effDeps := d\<rparr>)) i"
  by (auto simp: hook_inv_iff is_open_run_cleanup)

lemma inv_commit: "hook_inv st \<Longrightarrow> hook_inv (commit st)"
proof (cases "effDeps st = Some (a_input (argsRef st))")
  case True
  assume "hook_inv st"
  with True show ?thesis by (simp add: commit_same)
next
  case False
  assume i: "hook_inv st"
  show ?thesis
    using inv_run_cleanup [OF i]
    by (simp add: commit_changed [OF False] hook_inv_iff is_open_effect)
qed

lemma errorRef_handler:
  "errorRef (handler inp ev st) = errorRef st \<or> (\<exists>e. ev = EError e \<and> inp = a_input (argsRef st))"
  by (cases ev) (auto simp: next_handler_def error_handler_def complete_handler_def
        emit_event_def forceUpdate_def split: option.split)

lemma errorRef_deliver_nonerror:
  "(\<And>e. ev \<noteq> EError e) \<Longrightarrow> errorRef (deliver h ev st) = errorRef st"
  by (cases ev) (auto simp: deliver_def Let_def next_handler_def complete_handler_def
        emit_event_def split: option.split)

lemma inv_deliver:
  assumes "hook_inv st"
  shows "hook_inv (deliver h ev st)"
proof (cases "is_open st h")
  case False
  with assms show ?thesis by (simp add: deliver_not_open)
next
  case True
  show ?thesis
  proof (cases ev)
    case (ENext v)
    have "errorRef (deliver h ev st) = errorRef st"
      using ENext by (simp add: errorRef_deliver_nonerror)
    with assms show ?thesis
      by (auto simp: hook_inv_iff dest!: is_open_deliver)
  next
    case (EError e)
    have "\<not> is_open (deliver h ev st) i" for i
      using inv_unique [OF assms True, of i] is_open_deliver_terminal(1) [of h e st i] EError
      by auto
    then show ?thesis by (simp add: inv_all_closed)
  next
    case EComplete
    have "\<not> is_open (deliver h ev st) i" for i
      using inv_unique [OF assms True, of i] is_open_deliver_terminal(2) [of h st i] EComplete
      by auto
    then show ?thesis by (simp add: inv_all_closed)
  qed
qed

lemma inv_step: "hook_inv st \<Longrightarrow> hook_inv (step a st)"
proof (cases a)
  case (Render x)
  assume "hook_inv st" with Render show ?thesis by (simp add: hook_inv_iff)
next
  case Commit
  assume "hook_inv st" with Commit show ?thesis by (simp add: inv_commit)
next
  case Unmount
  assume "hook_inv st"
  then have "\<And>i. \<not> is_open (unmount st) i"
    by (auto simp: unmount_def hook_inv_iff is_open_run_cleanup)
  with Unmount show ?thesis by (simp add: inv_all_closed)
next
  case (Emit h ev)
  assume "hook_inv st" with Emit show ?thesis by (simp add: inv_deliver)
next
  case ManualUnsubscribe
  assume "hook_inv st" with ManualUnsubscribe show ?thesis
    by (auto simp: hook_inv_iff dest!: is_open_manual_unsubscribe)
qed

lemma inv_run: "hook_inv st \<Longrightarrow> hook_inv (run acts st)"
  by (induction acts arbitrary: st) (simp_all add: inv_step)

lemma inv_reachable: "hook_inv (run acts (fresh a))"
  by (simp add: inv_run inv_fresh)

lemma inv_at_most_one: assumes "hook_inv st" shows "length (open_handles st) \<le> 1"
proof -
  have "\<forall>a\<in>set (open_handles st). \<forall>b\<in>set (open_handles st). a = b"
    using assms by (auto simp: open_handles_set intro: inv_unique)
  then have "card (set (open_handles st)) \<le> Suc 0"
    by (simp add: card_le_Suc0_iff_eq)
  then show ?thesis
    by (simp add: distinct_card [OF open_handles_distinct])
qed

section \<open>What an emission does\<close>

lemma deliver_error_fresh:
  assumes "is_open st h" "sub_input (subs st ! h) = a_input (argsRef st)"
  shows "errorRef (deliver h (EError e) st) = (case a_error (argsRef st) of Some f \<Rightarrow> JNull | None \<Rightarrow> e)"
    and "events (deliver h (EError e) st) =
          events st @ (case a_error (argsRef st) of Some f \<Rightarrow> [ErrorCalled f e] | None \<Rightarrow> [ForceUpdate])"
  using assms
  by (simp_all add: deliver_open error_handler_def emit_event_def forceUpdate_def split: option.split)

lemma events_deliver_open:
  assumes "is_open st h"
  shows "events (deliver h ev st) =
     events st @ (if sub_input (subs st ! h) = a_input (argsRef st)
                  then expected_events (argsRef st) ev else [])"
  using assms
  by (cases ev)
     (simp_all add: deliver_open next_handler_def error_handler_def complete_handler_def
        emit_event_def forceUpdate_def split: option.split)

lemma expected_events_callback:
  "callback_for a ev = Some c \<Longrightarrow> expected_events a ev = [c]"
  by (cases ev) auto

section \<open>Where a stored error comes from\<close>

lemma errorRef_step:
  "errorRef (step a st) = errorRef st \<or> errorRef (step a st) = JNull \<or>
   (\<exists>h. a = Emit h (EError (errorRef (step a st))))"
proof (cases a)
  case (Render x)
  then show ?thesis by simp
next
  case Commit
  then show ?thesis by (simp add: commit_def Let_def)
next
  case Unmount
  then show ?thesis by (simp add: unmount_def)
next
  case (Emit h ev)
  show ?thesis
  proof (cases ev)
    case (EError e)
    with Emit show ?thesis
      by (auto simp: deliver_def Let_def error_handler_def emit_event_def forceUpdate_def
          split: option.split)
  qed (use Emit in \<open>simp_all add: errorRef_deliver_nonerror\<close>)
next
  case ManualUnsubscribe
  then show ?thesis by simp
qed

lemma errorRef_run:
  "errorRef (run acts st) = errorRef st \<or> errorRef (run acts st) = JNull \<or>
   (\<exists>h. Emit h (EError (errorRef (run acts st))) \<in> set acts)"
proof (induction acts arbitrary: st)
  case Nil
  then show ?case by simp
next
  case (Cons a acts)
  let ?r = "errorRef (run acts (step a st))"
  from Cons.IH [of "step a st"]
  consider "?r = errorRef (step a st)" | "?r = JNull" | "\<exists>h. Emit h (EError ?r) \<in> set acts"
    by blast
  then have "?r = errorRef st \<or> ?r = JNull \<or> (\<exists>h. Emit h (EError ?r) \<in> set (a # acts))"
  proof cases
    case 1
    with errorRef_step [of a st]
    have "?r = errorRef st \<or> ?r = JNull \<or> (\<exists>h. a = Emit h (EError ?r))"
      by simp
    then show ?thesis by (metis list.set_intros(1))
  next
    case 2
    then show ?thesis by simp
  next
    case 3
    then show ?thesis by (metis list.set_intros(2))
  qed
  then show ?case by simp
qed

lemma throws_origin:
  assumes "\<not> truthy (errorRef st)" "fst (render a (run acts st)) = Throws x"
  shows "\<exists>h. Emit h (EError x) \<in> set acts"
proof -
  from assms(2) have t: "truthy (errorRef (run acts st))" and x: "x = errorRef (run acts st)"
    by (auto simp: render_fst split: if_splits)
  from t assms(1) have "errorRef (run acts st) \<noteq> errorRef st" "errorRef (run acts st) \<noteq> JNull"
    by auto
  with errorRef_run [of acts st] x show ?thesis by auto
qed

lemma holds_value_step:
  assumes "hook_inv st" "errorRef st \<noteq> JNull" "errorRef st \<noteq> JUndefined"
    and "errorRef (step act st) \<noteq> errorRef st"
  shows "act = Commit \<and> effDeps st \<noteq> Some (a_input (argsRef st))"
proof -
  from assms(1-3) have closed: "\<not> is_open st i" for i
    by (simp add: hook_inv_iff)
  show ?thesis
  proof (cases act)
    case Commit
    with assms(4) show ?thesis by (auto simp: commit_same)
  next
    case (Emit h ev)
    with assms(4) closed [of h] show ?thesis by (simp add: deliver_not_open)
  qed (use assms(4) in \<open>simp_all add: unmount_def\<close>)
qed

lemma effDeps_step:
  "effDeps (step act st) = effDeps st \<or> act = Commit \<and> effDeps st \<noteq> Some (a_input (argsRef st))"
  by (cases act) (simp_all add: commit_def Let_def unmount_def)

lemma argsRef_step:
  "argsRef (step act st) = (case act of Render a \<Rightarrow> a | _ \<Rightarrow> argsRef st)"
  by (cases act) (simp_all add: commit_def Let_def unmount_def)

lemma persists_run:
  assumes "hook_inv st" "errorRef st \<noteq> JNull" "errorRef st \<noteq> JUndefined"
    and "effDeps st = Some s" "a_input (argsRef st) = s" "list_all (keeps_source s) acts"
  shows "errorRef (run acts st) = errorRef st"
  using assms
proof (induction acts arbitrary: st)
  case Nil
  then show ?case by simp
next
  case (Cons act acts)
  have same: "effDeps st = Some (a_input (argsRef st))"
    using Cons.prems by simp
  have e: "errorRef (step act st) = errorRef st"
    using holds_value_step [OF Cons.prems(1-3), of act] same by blast
  have d: "effDeps (step act st) = Some s"
    using effDeps_step [of act st] same Cons.prems(4) by auto
  have a: "a_input (argsRef (step act st)) = s"
    using Cons.prems(5,6) by (cases act) (simp_all add: argsRef_step del: step.simps)
  have "errorRef (run acts (step act st)) = errorRef (step act st)"
    using Cons.prems e d a
    by (intro Cons.IH) (simp_all add: inv_step del: step.simps)
  with e show ?case by simp
qed

section \<open>Closed subscriptions\<close>

lemma length_subs_step: "length (subs st) \<le> length (subs (step a st))"
  by (cases a) (simp_all add: commit_def Let_def unmount_def)

lemma is_open_step: "is_open (step a st) i \<Longrightarrow> is_open st i \<or> length (subs st) \<le> i"
proof (cases a)
  case Commit
  assume "is_open (step a st) i"
  with Commit show ?thesis
    by (cases "effDeps st = Some (a_input (argsRef st))")
       (auto simp: commit_same commit_changed is_open_effect is_open_run_cleanup)
next
  case (Emit h ev)
  assume "is_open (step a st) i"
  with Emit show ?thesis by (auto dest: is_open_deliver)
next
  case ManualUnsubscribe
  assume "is_open (step a st) i"
  with ManualUnsubscribe show ?thesis by (auto dest: is_open_manual_unsubscribe)
qed (auto simp: unmount_def is_open_run_cleanup)

lemma closed_stays_closed:
  "h < length (subs st) \<Longrightarrow> \<not> is_open st h \<Longrightarrow> \<not> is_open (run acts st) h"
proof (induction acts arbitrary: st)
  case Nil
  then show ?case by simp
next
  case (Cons a acts)
  have "h < length (subs (step a st))"
    using Cons.prems(1) length_subs_step [of st a] by simp
  moreover have "\<not> is_open (step a st) h"
    using Cons.prems is_open_step [of a st h] by auto
  ultimately show ?case
    using Cons.IH [of "step a st"] by simp
qed

section \<open>Emissions while \<open>subscribe\<close> runs\<close>

lemma effect_sync_Nil: "effect_sync [] st = effect st"
  by (simp add: effect_sync_def effect_def)

lemma commit_sync_Nil: "commit_sync [] st = commit st"
  by (simp add: commit_sync_def commit_def effect_sync_Nil Let_def)

lemma run_sync_Act: "run_sync (map Act acts) st = run acts st"
  by (induction acts arbitrary: st) simp_all

lemma effect_subscribed_frame [simp]:
  "argsRef (effect_subscribed st) = argsRef st"
  "subscriptionRef (effect_subscribed st) = subscriptionRef st"
  "errorRef (effect_subscribed st) = JNull"
  "effDeps (effect_subscribed st) = effDeps st"
  "effCleanup (effect_subscribed st) = effCleanup st"
  "events (effect_subscribed st) = events st"
  "subs (effect_subscribed st) = subs st @ [\<lparr>sub_input = a_input (argsRef st), sub_closed = False\<rparr>]"
  by (simp_all add: effect_subscribed_def subscribe_def Let_def)

lemma is_open_effect_subscribed:
  "is_open (effect_subscribed st) i = (is_open st i \<or> i = length (subs st))"
  by (auto simp: is_open_def nth_append)

lemma sync_emissions_frame [simp]:
  "argsRef (sync_emissions h evs st) = argsRef st"
  "subscriptionRef (sync_emissions h evs st) = subscriptionRef st"
  "effDeps (sync_emissions h evs st) = effDeps st"
  "effCleanup (sync_emissions h evs st) = effCleanup st"
  "length (subs (sync_emissions h evs st)) = length (subs st)"
  by (induction evs arbitrary: st; simp)+

lemma effect_sync_stages:
  "effect_sync sync st =
     (sync_emissions (length (subs st)) sync (effect_subscribed st))
       \<lparr>subscriptionRef := Some (length (subs st)), effCleanup := Some (length (subs st))\<rparr>"
  by (simp add: effect_sync_def effect_subscribed_def subscribe_def Let_def)

lemma commit_sync_same: "effDeps st = Some (a_input (argsRef st)) \<Longrightarrow> commit_sync sync st = st"
  by (simp add: commit_sync_def)

lemma commit_sync_changed:
  "effDeps st \<noteq> Some (a_input (argsRef st)) \<Longrightarrow>
   commit_sync sync st =
     effect_sync sync (run_cleanup (st\<lparr>effDeps := Some (a_input (argsRef st))\<rparr>))"
  by (simp add: commit_sync_def)

lemma is_open_deliver_self:
  "is_open (deliver h ev st) h = (is_open st h \<and> \<not> terminal ev)"
  by (cases "is_open st h"; cases ev) (simp_all add: deliver_open deliver_not_open)

lemma is_open_sync_emissions_self:
  "is_open (sync_emissions h evs st) h = (is_open st h \<and> \<not> list_ex terminal evs)"
  by (induction evs arbitrary: st) (auto simp: is_open_deliver_self)

lemma is_open_sync_emissions: "is_open (sync_emissions h evs st) i \<Longrightarrow> is_open st i"
  by (induction evs arbitrary: st) (auto dest: is_open_deliver)

lemma window_deliver:
  assumes "errorRef st \<noteq> JNull \<and> errorRef st \<noteq> JUndefined \<longrightarrow> \<not> is_open st h"
  shows "errorRef (deliver h ev st) \<noteq> JNull \<and> errorRef (deliver h ev st) \<noteq> JUndefined
         \<longrightarrow> \<not> is_open (deliver h ev st) h"
proof (cases "is_open st h")
  case False
  then show ?thesis by (simp add: deliver_not_open)
next
  case True
  with assms have e: "errorRef st = JNull \<or> errorRef st = JUndefined" by blast
  show ?thesis
  proof (cases ev)
    case (ENext v)
    with e show ?thesis by (auto simp: errorRef_deliver_nonerror)
  qed (simp_all add: is_open_deliver_self)
qed

lemma window_sync_emissions:
  "errorRef st \<noteq> JNull \<and> errorRef st \<noteq> JUndefined \<longrightarrow> \<not> is_open st h \<Longrightarrow>
   errorRef (sync_emissions h evs st) \<noteq> JNull \<and> errorRef (sync_emissions h evs st) \<noteq> JUndefined
     \<longrightarrow> \<not> is_open (sync_emissions h evs st) h"
proof (induction evs arbitrary: st)
  case Nil
  then show ?case by simp
next
  case (Cons ev evs)
  from Cons.IH [OF window_deliver [OF Cons.prems, of ev]] show ?case by simp
qed

lemma inv_commit_sync:
  assumes "hook_inv st"
  shows "hook_inv (commit_sync sync st)"
proof (cases "effDeps st = Some (a_input (argsRef st))")
  case True
  with assms show ?thesis by (simp add: commit_sync_same)
next
  case False
  let ?c = "run_cleanup (st\<lparr>effDeps := Some (a_input (argsRef st))\<rparr>)"
  let ?n = "length (subs st)"
  let ?w = "sync_emissions ?n sync (effect_subscribed ?c)"
  have closed: "\<not> is_open ?c i" for i
    by (rule inv_run_cleanup [OF assms])
  have only: "is_open ?w i \<Longrightarrow> i = ?n" for i
    using is_open_sync_emissions [of ?n sync "effect_subscribed ?c" i] closed [of i]
    by (auto simp: is_open_effect_subscribed)
  have err: "errorRef ?w \<noteq> JNull \<and> errorRef ?w \<noteq> JUndefined \<longrightarrow> \<not> is_open ?w ?n"
    by (rule window_sync_emissions) simp
  have c: "commit_sync sync st = ?w\<lparr>subscriptionRef := Some ?n, effCleanup := Some ?n\<rparr>"
    by (simp add: commit_sync_changed [OF False] effect_sync_stages)
  show ?thesis
    using only err by (auto simp: c hook_inv_iff)
qed

lemma inv_step_sync: "hook_inv st \<Longrightarrow> hook_inv (step_sync x st)"
  by (cases x) (simp_all add: inv_step inv_commit_sync del: step.simps)

lemma inv_run_sync: "hook_inv st \<Longrightarrow> hook_inv (run_sync acts st)"
  by (induction acts arbitrary: st) (simp_all add: inv_step_sync del: step_sync.simps)

lemma inv_reachable_sync: "hook_inv (run_sync acts (fresh a))"
  by (simp add: inv_run_sync inv_fresh)

lemma before_first_commit_sync:
  "list_all no_commit acts \<Longrightarrow> subs st = [] \<Longrightarrow> subscriptionRef st = None \<Longrightarrow>
   errorRef st = JUndefined \<Longrightarrow> effCleanup st = None \<Longrightarrow>
   subscriptionRef (run_sync acts st) = None \<and> errorRef (run_sync acts st) = JUndefined"
proof (induction acts arbitrary: st)
  case Nil
  then show ?case by simp
next
  case (Cons x acts)
  from Cons.prems(1) obtain a where x: "x = Act a" "a \<noteq> Commit"
    by (cases x rule: no_commit.cases) auto
  have "subs (step_sync x st) = [] \<and> subscriptionRef (step_sync x st) = None
        \<and> errorRef (step_sync x st) = JUndefined \<and> effCleanup (step_sync x st) = None"
    using Cons.prems x
    by (cases a) (simp_all add: unmount_def run_cleanup_def manual_unsubscribe_def deliver_def)
  with Cons.IH [of "step_sync x st"] Cons.prems(1) show ?case by simp
qed

section \<open>Properties\<close>

subsection \<open>Render phase\<close>

text \<open>
  C7. A render-phase run of the hook stores the new argument tuple in \<open>argsRef\<close>, whether or
  not it goes on to throw, and changes nothing else: the store of subscriptions, the
  cell \<open>subscriptionRef\<close>, the error cell, the effect's dependency array and cleanup, and
  the record of calls stay as they were, so nothing is subscribed or unsubscribed.
\<close>

theorem render_frame:
  "snd (render a st) = st\<lparr>argsRef := a\<rparr>
   \<and> argsRef (snd (render a st)) = a
   \<and> subs (snd (render a st)) = subs st
   \<and> subscriptionRef (snd (render a st)) = subscriptionRef st
   \<and> errorRef (snd (render a st)) = errorRef st
   \<and> effDeps (snd (render a st)) = effDeps st
   \<and> effCleanup (snd (render a st)) = effCleanup st
   \<and> events (snd (render a st)) = events st
   \<and> open_handles (snd (render a st)) = open_handles st"
  by (simp add: render_def Let_def open_handles_def is_open_def [abs_def])

subsection \<open>The returned cell\<close>

text \<open>
  C8 does not hold while \<open>subscribe\<close> is running. The first render returns the cell. On
  the first commit source 1 emits the value 5 inside \<open>subscribe\<close>: the commit passes
  through the state \<open>effect_subscribed\<close>, in which subscription 0 is open and hands the
  value to callback 10, yet the cell is empty. On a swap to source 2 the same happens with
  subscription 1 open while the cell still holds the closed subscription 0.
\<close>

theorem returned_handle_counterexample:
  "fst (render (with_next 1 10) (fresh (with_next 1 10))) = Returns SubscriptionCell
   \<and> commit_sync [ENext (JNum 5)] (run_sync [Act (Render (with_next 1 10))] (fresh (with_next 1 10)))
       = (deliver 0 (ENext (JNum 5)) (effect_subscribed (run_cleanup
            ((run_sync [Act (Render (with_next 1 10))] (fresh (with_next 1 10)))\<lparr>effDeps := Some 1\<rparr>))))
         \<lparr>subscriptionRef := Some 0, effCleanup := Some 0\<rparr>
   \<and> is_open (effect_subscribed (run_cleanup
         ((run_sync [Act (Render (with_next 1 10))] (fresh (with_next 1 10)))\<lparr>effDeps := Some 1\<rparr>))) 0
   \<and> events (deliver 0 (ENext (JNum 5)) (effect_subscribed (run_cleanup
         ((run_sync [Act (Render (with_next 1 10))] (fresh (with_next 1 10)))\<lparr>effDeps := Some 1\<rparr>))))
       = [NextCalled 10 (JNum 5)]
   \<and> cell_current SubscriptionCell (effect_subscribed (run_cleanup
         ((run_sync [Act (Render (with_next 1 10))] (fresh (with_next 1 10)))\<lparr>effDeps := Some 1\<rparr>)))
       = None
   \<and> is_open (effect_subscribed (run_cleanup
         ((run_sync [Act (Render (with_next 1 10)), Act Commit, Act (Render (with_next 2 10))]
            (fresh (with_next 1 10)))\<lparr>effDeps := Some 2\<rparr>))) 1
   \<and> cell_current SubscriptionCell (effect_subscribed (run_cleanup
         ((run_sync [Act (Render (with_next 1 10)), Act Commit, Act (Render (with_next 2 10))]
            (fresh (with_next 1 10)))\<lparr>effDeps := Some 2\<rparr>)))
       = Some 0"
  by (simp add: eval_defs commit_sync_def effect_sync_def effect_subscribed_def)

text \<open>
  C8, amended. Let \<open>c\<close> be the cell a render returned. After any history, also one whose
  commits come with emissions inside \<open>subscribe\<close>, a subscription that is open is the one
  read through \<open>c\<close>. A commit that subscribes leaves the new subscription in \<open>c\<close>, open
  unless an error or a completion ended it inside \<open>subscribe\<close>; while \<open>subscribe\<close> is
  running, the new subscription is open and \<open>c\<close> still holds what it held before. In a
  history without a commit \<open>c\<close> is empty and every render returns it.
\<close>

theorem returned_handle:
  assumes "fst (render a1 st1) = Returns c"
  shows "(is_open (run_sync acts (fresh a0)) h \<longrightarrow>
            cell_current c (run_sync acts (fresh a0)) = Some h)
   \<and> (effDeps (run_sync acts (fresh a0)) \<noteq> Some (a_input (argsRef (run_sync acts (fresh a0)))) \<longrightarrow>
        cell_current c (commit_sync sync (run_sync acts (fresh a0)))
          = Some (length (subs (run_sync acts (fresh a0))))
        \<and> is_open (commit_sync sync (run_sync acts (fresh a0))) (length (subs (run_sync acts (fresh a0))))
          = (\<not> list_ex terminal sync)
        \<and> is_open (effect_subscribed (run_cleanup ((run_sync acts (fresh a0))
              \<lparr>effDeps := Some (a_input (argsRef (run_sync acts (fresh a0))))\<rparr>)))
            (length (subs (run_sync acts (fresh a0))))
        \<and> cell_current c (effect_subscribed (run_cleanup ((run_sync acts (fresh a0))
              \<lparr>effDeps := Some (a_input (argsRef (run_sync acts (fresh a0))))\<rparr>)))
          = cell_current c (run_sync acts (fresh a0)))
   \<and> (list_all no_commit acts \<longrightarrow>
        cell_current c (run_sync acts (fresh a0)) = None
        \<and> fst (render a (run_sync acts (fresh a0))) = Returns c)"
proof -
  let ?st = "run_sync acts (fresh a0)"
  have c: "c = SubscriptionCell" by (cases c) simp
  have "hook_inv ?st" by (rule inv_reachable_sync)
  then have reach: "is_open ?st h \<longrightarrow> subscriptionRef ?st = Some h"
    by (simp add: hook_inv_iff)
  have first: "subscriptionRef ?st = None \<and> errorRef ?st = JUndefined" if "list_all no_commit acts"
    using before_first_commit_sync [OF that, of "fresh a0"] by (simp add: fresh_def)
  show ?thesis
    using reach first
    by (auto simp: c commit_sync_changed effect_sync_stages is_open_sync_emissions_self
        is_open_effect_subscribed render_fst)
qed

text \<open>
  The theorem at four histories: two renders and no commit, a swap from source 1 to source
  2 whose first commit comes with a value, a first commit alone, and a first commit whose
  source emits a value and completes inside \<open>subscribe\<close>.
\<close>

theorem returned_handle_witness:
  "fst (render (with_next 1 10) (fresh (with_next 1 10))) = Returns SubscriptionCell
   \<and> list_all no_commit [Act (Render (with_next 1 10)), Act (Render (with_next 1 11))]
   \<and> cell_current SubscriptionCell
        (run_sync [Act (Render (with_next 1 10)), Act (Render (with_next 1 11))] (fresh (with_next 1 10)))
       = None
   \<and> fst (render (with_next 1 10)
        (run_sync [Act (Render (with_next 1 10)), Act (Render (with_next 1 11))] (fresh (with_next 1 10))))
       = Returns SubscriptionCell
   \<and> is_open (run_sync [Act (Render (with_next 1 10)), CommitEmitting [ENext (JNum 5)],
          Act (Render (with_next 2 10)), Act Commit] (fresh (with_next 1 10))) 1
   \<and> cell_current SubscriptionCell
        (run_sync [Act (Render (with_next 1 10)), CommitEmitting [ENext (JNum 5)],
          Act (Render (with_next 2 10)), Act Commit] (fresh (with_next 1 10)))
       = Some 1
   \<and> effDeps (run_sync [Act (Render (with_next 1 10))] (fresh (with_next 1 10))) = None
   \<and> cell_current SubscriptionCell
        (commit_sync [] (run_sync [Act (Render (with_next 1 10))] (fresh (with_next 1 10))))
       = Some 0
   \<and> is_open (commit_sync [] (run_sync [Act (Render (with_next 1 10))] (fresh (with_next 1 10)))) 0
   \<and> cell_current SubscriptionCell
        (commit_sync [ENext (JNum 5), EComplete]
          (run_sync [Act (Render (with_next 1 10))] (fresh (with_next 1 10))))
       = Some 0
   \<and> \<not> is_open (commit_sync [ENext (JNum 5), EComplete]
          (run_sync [Act (Render (with_next 1 10))] (fresh (with_next 1 10)))) 0"
  using returned_handle
    [of "with_next 1 10" "fresh (with_next 1 10)" SubscriptionCell
        "[Act (Render (with_next 1 10)), Act (Render (with_next 1 11))]" "with_next 1 10" 0 "[]"
        "with_next 1 10"]
    returned_handle
    [of "with_next 1 10" "fresh (with_next 1 10)" SubscriptionCell
        "[Act (Render (with_next 1 10)), CommitEmitting [ENext (JNum 5)],
          Act (Render (with_next 2 10)), Act Commit]" "with_next 1 10" 1 "[]" "with_next 1 10"]
    returned_handle
    [of "with_next 1 10" "fresh (with_next 1 10)" SubscriptionCell
        "[Act (Render (with_next 1 10))]" "with_next 1 10" 0 "[]" "with_next 1 10"]
    returned_handle
    [of "with_next 1 10" "fresh (with_next 1 10)" SubscriptionCell
        "[Act (Render (with_next 1 10))]" "with_next 1 10" 0 "[ENext (JNum 5), EComplete]"
        "with_next 1 10"]
  by (simp add: eval_defs commit_sync_def effect_sync_def effect_subscribed_def)

subsection \<open>Subscriptions\<close>

text \<open>
  C4. After any sequence of renders, commits, teardowns, emissions and manual
  unsubscriptions on one instance, at most one subscription is open. When a commit finds
  the source changed, it first runs the cleanup, after which no subscription is open, and
  only then runs the effect body that subscribes; afterwards exactly one is open. After a
  teardown none is open.
\<close>

theorem at_most_one_subscription:
  "length (open_handles (run acts (fresh a0))) \<le> 1
   \<and> (effDeps (run acts (fresh a0)) \<noteq> Some (a_input (argsRef (run acts (fresh a0)))) \<longrightarrow>
        commit (run acts (fresh a0)) =
          effect (run_cleanup ((run acts (fresh a0))\<lparr>effDeps := Some (a_input (argsRef (run acts (fresh a0))))\<rparr>))
        \<and> open_handles (run_cleanup ((run acts (fresh a0))\<lparr>effDeps := Some (a_input (argsRef (run acts (fresh a0))))\<rparr>)) = []
        \<and> length (open_handles (commit (run acts (fresh a0)))) = 1)
   \<and> open_handles (unmount (run acts (fresh a0))) = []"
proof -
  let ?st = "run acts (fresh a0)"
  have i: "hook_inv ?st" by (rule inv_reachable)
  have one: "length (open_handles ?st) \<le> 1"
    by (rule inv_at_most_one [OF i])
  have mid: "open_handles (run_cleanup (?st\<lparr>effDeps := d\<rparr>)) = []" for d
    by (rule none_open_handles) (simp add: inv_run_cleanup [OF i])
  have un: "open_handles (unmount ?st) = []"
    using mid [of "effDeps ?st"] by (simp add: unmount_def)
  have new: "length (open_handles (commit ?st)) = 1"
    if ch: "effDeps ?st \<noteq> Some (a_input (argsRef ?st))"
  proof -
    have "is_open (commit ?st) (length (subs ?st))"
      by (simp add: commit_changed [OF ch] is_open_effect)
    then have "length (subs ?st) \<in> set (open_handles (commit ?st))"
      by (simp add: open_handles_set)
    then have "open_handles (commit ?st) \<noteq> []"
      by auto
    moreover have "length (open_handles (commit ?st)) \<le> 1"
      by (rule inv_at_most_one [OF inv_commit [OF i]])
    ultimately show ?thesis
      by (cases "open_handles (commit ?st)") auto
  qed
  show ?thesis
    using one mid un new by (simp add: commit_changed)
qed

text \<open>
  The theorem at a swap from source 1 to source 2: after the cleanup no subscription is
  open, after the commit only handle 1 is.
\<close>

theorem at_most_one_subscription_witness:
  "length (open_handles (run [Render (with_next 1 10), Commit, Render (with_next 2 10)]
       (fresh (with_next 1 10)))) = 1
   \<and> effDeps (run [Render (with_next 1 10), Commit, Render (with_next 2 10)]
       (fresh (with_next 1 10))) = Some 1
   \<and> a_input (argsRef (run [Render (with_next 1 10), Commit, Render (with_next 2 10)]
       (fresh (with_next 1 10)))) = 2
   \<and> open_handles (run_cleanup ((run [Render (with_next 1 10), Commit, Render (with_next 2 10)]
       (fresh (with_next 1 10)))\<lparr>effDeps := Some 2\<rparr>)) = []
   \<and> open_handles (commit (run [Render (with_next 1 10), Commit, Render (with_next 2 10)]
       (fresh (with_next 1 10)))) = [1]"
  using at_most_one_subscription
    [of "[Render (with_next 1 10), Commit, Render (with_next 2 10)]" "with_next 1 10"]
  by (simp add: eval_defs)

text \<open>
  C3. Let \<open>s\<close> be the committed source, with its subscription \<open>h\<close> open. A render that
  passes \<open>s\<close> again with any callbacks, followed by its commit, creates no subscription and
  closes none: the commit changes nothing. An emission of \<open>h\<close> after that render is
  dispatched under the tuple of that render, whatever the tuple was when \<open>h\<close> was made.
\<close>

theorem callback_freshness:
  assumes "is_open st h" "sub_input (subs st ! h) = s" "effDeps st = Some s" "a_input a = s"
  shows "commit (snd (render a st)) = snd (render a st)
       \<and> subs (commit (snd (render a st))) = subs st
       \<and> open_handles (commit (snd (render a st))) = open_handles st
       \<and> events (deliver h ev (commit (snd (render a st)))) = events st @ expected_events a ev"
proof -
  have c: "commit (st\<lparr>argsRef := a\<rparr>) = st\<lparr>argsRef := a\<rparr>"
    using assms by (simp add: commit_same)
  have o: "is_open (st\<lparr>argsRef := a\<rparr>) h"
    using assms by simp
  show ?thesis
    using assms
    by (simp add: c events_deliver_open [OF o] open_handles_def is_open_def [abs_def])
qed

text \<open>
  The theorem at a render that replaces next callback 10 by 11 under the same source 1.
\<close>

theorem callback_freshness_witness:
  "is_open (run [Render (with_next 1 10), Commit] (fresh (with_next 1 10))) 0
   \<and> effDeps (run [Render (with_next 1 10), Commit] (fresh (with_next 1 10))) = Some 1
   \<and> subs (commit (snd (render (with_next 1 11)
         (run [Render (with_next 1 10), Commit] (fresh (with_next 1 10))))))
       = [\<lparr>sub_input = 1, sub_closed = False\<rparr>]
   \<and> events (deliver 0 (ENext (JNum 5)) (commit (snd (render (with_next 1 11)
         (run [Render (with_next 1 10), Commit] (fresh (with_next 1 10)))))))
       = [NextCalled 11 (JNum 5)]"
  using callback_freshness
    [of "run [Render (with_next 1 10), Commit] (fresh (with_next 1 10))" 0 1 "with_next 1 11"
        "ENext (JNum 5)"]
  by (simp add: eval_defs)

subsection \<open>Staleness\<close>

text \<open>
  C10. The handlers compare their own \<open>input$\<close> with the source of the latest render. For
  an open subscription \<open>h\<close> and a render with tuple \<open>a\<close>, with no commit after it: an
  emission of \<open>h\<close> is dispatched under \<open>a\<close> when the source of \<open>h\<close> is the source of
  \<open>a\<close>, and does nothing to the calls or the error cell otherwise. So the call a filled
  callback position prescribes happens if and only if the two sources are the same
  reference, while the old subscription is still open and the effect has not run.
\<close>

theorem staleness_against_latest_render:
  assumes "is_open st h"
  shows "events (deliver h ev (snd (render a st))) =
           events st @ (if sub_input (subs st ! h) = a_input a then expected_events a ev else [])
       \<and> (sub_input (subs st ! h) \<noteq> a_input a \<longrightarrow>
            errorRef (deliver h ev (snd (render a st))) = errorRef st)
       \<and> (\<forall>c. callback_for a ev = Some c \<longrightarrow>
            (events (deliver h ev (snd (render a st))) = events st @ [c]
             \<longleftrightarrow> sub_input (subs st ! h) = a_input a))
       \<and> effDeps (snd (render a st)) = effDeps st
       \<and> is_open (snd (render a st)) h"
proof -
  have o: "is_open (st\<lparr>argsRef := a\<rparr>) h"
    using assms by simp
  have e: "sub_input (subs st ! h) \<noteq> a_input a \<Longrightarrow>
      errorRef (deliver h ev (st\<lparr>argsRef := a\<rparr>)) = errorRef st"
    by (cases ev) (simp_all add: deliver_open [OF o] handler_stale next_handler_def
        error_handler_def complete_handler_def)
  show ?thesis
    using assms e
    by (auto simp: events_deliver_open [OF o] expected_events_callback)
qed

text \<open>
  The theorem at subscription 0 of source 1: after a render passing source 2 an emission
  calls nothing, after a render passing source 1 with callback 11 it calls 11.
\<close>

theorem staleness_against_latest_render_witness:
  "is_open (run [Render (with_next 1 10), Commit] (fresh (with_next 1 10))) 0
   \<and> effDeps (snd (render (with_next 2 10)
         (run [Render (with_next 1 10), Commit] (fresh (with_next 1 10))))) = Some 1
   \<and> events (deliver 0 (ENext (JNum 5)) (snd (render (with_next 2 10)
         (run [Render (with_next 1 10), Commit] (fresh (with_next 1 10)))))) = []
   \<and> events (deliver 0 (ENext (JNum 5)) (snd (render (with_next 1 11)
         (run [Render (with_next 1 10), Commit] (fresh (with_next 1 10)))))) = [NextCalled 11 (JNum 5)]"
  using staleness_against_latest_render
    [of "run [Render (with_next 1 10), Commit] (fresh (with_next 1 10))" 0 "ENext (JNum 5)"
        "with_next 2 10"]
    staleness_against_latest_render
    [of "run [Render (with_next 1 10), Commit] (fresh (with_next 1 10))" 0 "ENext (JNum 5)"
        "with_next 1 11"]
  by (simp add: eval_defs)

text \<open>
  C1. Let \<open>A\<close> be the bound source, through subscription \<open>h\<close>, and let the latest render
  pass another source \<open>B\<close>. The commit binds \<open>B\<close> with a new open subscription. From then
  on an emission of \<open>h\<close>, of any kind and after any further history, leaves the whole state
  as it is: no callback is called, the error cell is not written, no update is forced.
  The handlers of \<open>h\<close> themselves do nothing right after the swap, and in any later state
  whose latest render does not pass \<open>A\<close>.
\<close>

theorem no_stale_delivery:
  assumes "effCleanup st = Some h" "h < length (subs st)" "sub_input (subs st ! h) = A"
    and "effDeps st = Some A" "a_input (argsRef st) = B" "B \<noteq> A"
  shows "effDeps (commit st) = Some B
       \<and> is_open (commit st) (length (subs st))
       \<and> sub_input (subs (commit st) ! length (subs st)) = B
       \<and> (\<forall>acts. deliver h ev (run acts (commit st)) = run acts (commit st))
       \<and> handler A ev (commit st) = commit st
       \<and> (\<forall>acts. a_input (argsRef (run acts (commit st))) \<noteq> A \<longrightarrow>
             handler A ev (run acts (commit st)) = run acts (commit st))"
proof -
  have ch: "effDeps st \<noteq> Some (a_input (argsRef st))"
    using assms by simp
  note c = commit_changed [OF ch]
  have stale: "handler A ev (commit st) = commit st"
    using assms by (simp add: handler_stale c)
  have closed: "\<not> is_open (commit st) h"
    using assms by (simp add: c is_open_effect is_open_run_cleanup)
  have len: "h < length (subs (commit st))"
    using assms by (simp add: c)
  have "deliver h ev (run acts (commit st)) = run acts (commit st)" for acts
    using closed_stays_closed [OF len closed, of acts] by (simp add: deliver_not_open)
  with stale assms show ?thesis
    by (simp add: c is_open_effect nth_append handler_stale)
qed

text \<open>
  The theorem at a swap from source 1 to source 2: a late value of subscription 0 calls
  nothing, a value of subscription 1 calls the next callback.
\<close>

theorem no_stale_delivery_witness:
  "effCleanup (run [Render (with_next 1 10), Commit, Render (with_next 2 10)] (fresh (with_next 1 10))) = Some 0
   \<and> sub_input (subs (run [Render (with_next 1 10), Commit, Render (with_next 2 10)] (fresh (with_next 1 10))) ! 0) = 1
   \<and> effDeps (run [Render (with_next 1 10), Commit, Render (with_next 2 10)] (fresh (with_next 1 10))) = Some 1
   \<and> a_input (argsRef (run [Render (with_next 1 10), Commit, Render (with_next 2 10)] (fresh (with_next 1 10)))) = 2
   \<and> events (deliver 0 (ENext (JNum 2)) (run [Render (with_next 1 10)]
        (commit (run [Render (with_next 1 10), Commit, Render (with_next 2 10)] (fresh (with_next 1 10)))))) = []
   \<and> events (deliver 1 (ENext (JNum 3))
        (commit (run [Render (with_next 1 10), Commit, Render (with_next 2 10)] (fresh (with_next 1 10))))) = [NextCalled 10 (JNum 3)]"
  using no_stale_delivery
    [of "run [Render (with_next 1 10), Commit, Render (with_next 2 10)] (fresh (with_next 1 10))"
        0 1 2 "ENext (JNum 2)"]
  by (simp add: eval_defs)

subsection \<open>Errors\<close>

text \<open>
  C2 does not hold for a falsy error. Source 1 is bound with no error callback and emits
  the error \<open>0\<close> through its open subscription: the error cell holds \<open>0\<close>, and the next
  render does not throw it.
\<close>

theorem error_escalation_counterexample:
  "is_open (run [Render (no_callbacks 1), Commit] (fresh (no_callbacks 1))) 0
   \<and> sub_input (subs (run [Render (no_callbacks 1), Commit] (fresh (no_callbacks 1))) ! 0) = 1
   \<and> a_input (argsRef (run [Render (no_callbacks 1), Commit] (fresh (no_callbacks 1)))) = 1
   \<and> a_error (argsRef (run [Render (no_callbacks 1), Commit] (fresh (no_callbacks 1)))) = None
   \<and> errorRef (deliver 0 (EError (JNum 0))
         (run [Render (no_callbacks 1), Commit] (fresh (no_callbacks 1)))) = JNum 0
   \<and> fst (render (no_callbacks 1) (deliver 0 (EError (JNum 0))
         (run [Render (no_callbacks 1), Commit] (fresh (no_callbacks 1))))) \<noteq> Throws (JNum 0)"
  by (simp add: eval_defs)

text \<open>
  C2, amended. The bound source emits an error \<open>e\<close> through its open subscription. With no
  error callback at that time, the error cell is set to \<open>e\<close>, an update is forced, and,
  when \<open>e\<close> is truthy, the next render throws exactly \<open>e\<close>. With an error callback \<open>f\<close>
  at that time, \<open>f\<close> is called with \<open>e\<close>, the error cell is cleared, the next render
  returns, and whatever a later render throws is an error that a later emission brought.
\<close>

theorem error_escalation_truthy:
  assumes "is_open st h" "sub_input (subs st ! h) = a_input (argsRef st)"
  shows "(a_error (argsRef st) = None \<longrightarrow>
            errorRef (deliver h (EError e) st) = e
          \<and> events (deliver h (EError e) st) = events st @ [ForceUpdate]
          \<and> (truthy e \<longrightarrow> fst (render a (deliver h (EError e) st)) = Throws e))
       \<and> (\<forall>f. a_error (argsRef st) = Some f \<longrightarrow>
            events (deliver h (EError e) st) = events st @ [ErrorCalled f e]
          \<and> errorRef (deliver h (EError e) st) = JNull
          \<and> fst (render a (deliver h (EError e) st)) = ReturnsRef
          \<and> (\<forall>acts a' x. fst (render a' (run acts (deliver h (EError e) st))) = Throws x \<longrightarrow>
                (\<exists>h'. Emit h' (EError x) \<in> set acts)))"
proof (intro conjI impI allI)
  fix f acts a' x
  assume f: "a_error (argsRef st) = Some f"
    and t: "fst (render a' (run acts (deliver h (EError e) st))) = Throws x"
  have "\<not> truthy (errorRef (deliver h (EError e) st))"
    using assms f by (simp add: deliver_error_fresh)
  from throws_origin [OF this t] show "\<exists>h'. Emit h' (EError x) \<in> set acts" .
qed (use assms in \<open>simp_all add: deliver_error_fresh render_fst\<close>)

text \<open>
  The theorem at the error object 7, without a callback and with error callback 20.
\<close>

theorem error_escalation_truthy_witness:
  "(is_open (run [Render (no_callbacks 1), Commit] (fresh (no_callbacks 1))) 0
    \<and> truthy (JObj 7)
    \<and> errorRef (deliver 0 (EError (JObj 7))
          (run [Render (no_callbacks 1), Commit] (fresh (no_callbacks 1)))) = JObj 7
    \<and> events (deliver 0 (EError (JObj 7))
          (run [Render (no_callbacks 1), Commit] (fresh (no_callbacks 1)))) = [ForceUpdate]
    \<and> fst (render (no_callbacks 1) (deliver 0 (EError (JObj 7))
          (run [Render (no_callbacks 1), Commit] (fresh (no_callbacks 1))))) = Throws (JObj 7))
   \<and> (is_open (run [Render (with_error 1 20), Commit] (fresh (with_error 1 20))) 0
    \<and> events (deliver 0 (EError (JObj 7))
          (run [Render (with_error 1 20), Commit] (fresh (with_error 1 20)))) = [ErrorCalled 20 (JObj 7)]
    \<and> errorRef (deliver 0 (EError (JObj 7))
          (run [Render (with_error 1 20), Commit] (fresh (with_error 1 20)))) = JNull
    \<and> fst (render (with_error 1 20) (deliver 0 (EError (JObj 7))
          (run [Render (with_error 1 20), Commit] (fresh (with_error 1 20))))) = ReturnsRef)"
  using error_escalation_truthy
    [of "run [Render (no_callbacks 1), Commit] (fresh (no_callbacks 1))" 0 "JObj 7" "no_callbacks 1"]
    error_escalation_truthy
    [of "run [Render (with_error 1 20), Commit] (fresh (with_error 1 20))" 0 "JObj 7" "with_error 1 20"]
  by (simp add: eval_defs)

text \<open>
  C9. A falsy error emitted by the bound source with no error callback is stored in the
  error cell and an update is forced, but the next render returns instead of throwing:
  line 108 lets only a truthy cell throw.
\<close>

theorem falsy_error_not_escalated:
  assumes "is_open st h" "sub_input (subs st ! h) = a_input (argsRef st)"
    and "a_error (argsRef st) = None" "\<not> truthy e"
  shows "errorRef (deliver h (EError e) st) = e
       \<and> events (deliver h (EError e) st) = events st @ [ForceUpdate]
       \<and> fst (render a (deliver h (EError e) st)) = ReturnsRef"
  using assms by (simp add: deliver_error_fresh render_fst)

text \<open>
  The theorem at the empty string as the error.
\<close>

theorem falsy_error_not_escalated_witness:
  "is_open (run [Render (no_callbacks 1), Commit] (fresh (no_callbacks 1))) 0
   \<and> a_error (argsRef (run [Render (no_callbacks 1), Commit] (fresh (no_callbacks 1)))) = None
   \<and> \<not> truthy (JStr [])
   \<and> errorRef (deliver 0 (EError (JStr []))
         (run [Render (no_callbacks 1), Commit] (fresh (no_callbacks 1)))) = JStr []
   \<and> events (deliver 0 (EError (JStr []))
         (run [Render (no_callbacks 1), Commit] (fresh (no_callbacks 1)))) = [ForceUpdate]
   \<and> fst (render (no_callbacks 1) (deliver 0 (EError (JStr []))
         (run [Render (no_callbacks 1), Commit] (fresh (no_callbacks 1))))) = ReturnsRef"
  using falsy_error_not_escalated
    [of "run [Render (no_callbacks 1), Commit] (fresh (no_callbacks 1))" 0 "JStr []" "no_callbacks 1"]
  by (simp add: eval_defs)

text \<open>
  C5. Whatever the error cell holds while source \<open>A\<close> is bound, a commit that binds another
  source \<open>B\<close> clears it as the first thing of the effect body. The next render returns,
  and whatever a later render throws is an error that an emission after that commit
  brought.
\<close>

theorem error_reset_on_rebind:
  assumes "effDeps st = Some A" "a_input (argsRef st) = B" "A \<noteq> B"
  shows "errorRef (commit st) = JNull
       \<and> (\<forall>a. fst (render a (commit st)) = ReturnsRef)
       \<and> (\<forall>acts a x. fst (render a (run acts (commit st))) = Throws x \<longrightarrow>
             (\<exists>h. Emit h (EError x) \<in> set acts))"
proof -
  have ch: "effDeps st \<noteq> Some (a_input (argsRef st))"
    using assms by auto
  have n: "errorRef (commit st) = JNull"
    by (simp add: commit_changed [OF ch])
  then have f: "\<not> truthy (errorRef (commit st))" by simp
  show ?thesis
    using n throws_origin [OF f] by (auto simp: render_fst)
qed

text \<open>
  The theorem after source 1 failed with the error object 7, and after it failed with the
  error \<open>0\<close>: in both the commit of source 2 clears the cell.
\<close>

theorem error_reset_on_rebind_witness:
  "(errorRef (run [Render (no_callbacks 1), Commit, Emit 0 (EError (JObj 7)), Render (no_callbacks 2)]
        (fresh (no_callbacks 1))) = JObj 7
    \<and> effDeps (run [Render (no_callbacks 1), Commit, Emit 0 (EError (JObj 7)), Render (no_callbacks 2)]
        (fresh (no_callbacks 1))) = Some 1
    \<and> errorRef (commit (run [Render (no_callbacks 1), Commit, Emit 0 (EError (JObj 7)), Render (no_callbacks 2)]
        (fresh (no_callbacks 1)))) = JNull
    \<and> fst (render (no_callbacks 2) (commit (run [Render (no_callbacks 1), Commit, Emit 0 (EError (JObj 7)),
        Render (no_callbacks 2)] (fresh (no_callbacks 1))))) = ReturnsRef)
   \<and> (errorRef (run [Render (no_callbacks 1), Commit, Emit 0 (EError (JNum 0)), Render (no_callbacks 2)]
        (fresh (no_callbacks 1))) = JNum 0
    \<and> errorRef (commit (run [Render (no_callbacks 1), Commit, Emit 0 (EError (JNum 0)), Render (no_callbacks 2)]
        (fresh (no_callbacks 1)))) = JNull)"
  using error_reset_on_rebind
    [of "run [Render (no_callbacks 1), Commit, Emit 0 (EError (JObj 7)), Render (no_callbacks 2)]
        (fresh (no_callbacks 1))" 1 2]
    error_reset_on_rebind
    [of "run [Render (no_callbacks 1), Commit, Emit 0 (EError (JNum 0)), Render (no_callbacks 2)]
        (fresh (no_callbacks 1))" 1 2]
  by (simp add: eval_defs)

text \<open>
  C6. In any history, once the error cell holds a value (neither \<open>null\<close> nor
  \<open>undefined\<close>): a render keeps it, also the render that throws it; a commit under the
  bound source keeps it; the only action that changes it is a commit that finds the
  source changed; and it stays through every sequence of actions whose renders all pass
  the bound source.
\<close>

theorem pending_error_persistence:
  assumes "errorRef (run acts0 (fresh a0)) = e" "e \<noteq> JNull" "e \<noteq> JUndefined"
  shows "errorRef (snd (render a (run acts0 (fresh a0)))) = e
       \<and> (effDeps (run acts0 (fresh a0)) = Some (a_input (argsRef (run acts0 (fresh a0)))) \<longrightarrow>
            errorRef (commit (run acts0 (fresh a0))) = e)
       \<and> (\<forall>act. errorRef (step act (run acts0 (fresh a0))) \<noteq> e \<longrightarrow>
            act = Commit \<and>
            effDeps (run acts0 (fresh a0)) \<noteq> Some (a_input (argsRef (run acts0 (fresh a0)))))
       \<and> (\<forall>s acts. effDeps (run acts0 (fresh a0)) = Some s
              \<and> a_input (argsRef (run acts0 (fresh a0))) = s
              \<and> list_all (keeps_source s) acts \<longrightarrow>
            errorRef (run acts (run acts0 (fresh a0))) = e)"
proof -
  let ?st = "run acts0 (fresh a0)"
  have i: "hook_inv ?st" by (rule inv_reachable)
  have v: "errorRef ?st \<noteq> JNull" "errorRef ?st \<noteq> JUndefined"
    using assms by simp_all
  have only: "act = Commit \<and> effDeps ?st \<noteq> Some (a_input (argsRef ?st))"
    if "errorRef (step act ?st) \<noteq> e" for act
    using holds_value_step [OF i v, of act] that assms(1) by simp
  have many: "errorRef (run acts ?st) = e"
    if "effDeps ?st = Some s" "a_input (argsRef ?st) = s" "list_all (keeps_source s) acts"
    for s acts
    using persists_run [OF i v that] assms(1) by simp
  show ?thesis
    using assms(1) only many by (simp add: commit_same)
qed

text \<open>
  The theorem after source 1 failed with the error object 7: the throwing render, a
  commit, and further renders and commits under source 1 keep the cell.
\<close>

theorem pending_error_persistence_witness:
  "errorRef (run [Render (no_callbacks 1), Commit, Emit 0 (EError (JObj 7))] (fresh (no_callbacks 1))) = JObj 7
   \<and> fst (render (with_next 1 10)
        (run [Render (no_callbacks 1), Commit, Emit 0 (EError (JObj 7))] (fresh (no_callbacks 1)))) = Throws (JObj 7)
   \<and> errorRef (snd (render (with_next 1 10)
        (run [Render (no_callbacks 1), Commit, Emit 0 (EError (JObj 7))] (fresh (no_callbacks 1))))) = JObj 7
   \<and> effDeps (run [Render (no_callbacks 1), Commit, Emit 0 (EError (JObj 7))] (fresh (no_callbacks 1))) = Some 1
   \<and> errorRef (commit
        (run [Render (no_callbacks 1), Commit, Emit 0 (EError (JObj 7))] (fresh (no_callbacks 1)))) = JObj 7
   \<and> errorRef (run [Render (with_next 1 10), Commit, Render (with_error 1 20), Commit]
        (run [Render (no_callbacks 1), Commit, Emit 0 (EError (JObj 7))] (fresh (no_callbacks 1)))) = JObj 7"
  using pending_error_persistence
    [of "[Render (no_callbacks 1), Commit, Emit 0 (EError (JObj 7))]" "no_callbacks 1" "JObj 7"
        "with_next 1 10"]
  by (simp add: eval_defs)

end
